theory Spec2Isabelle
  imports Complex_Main "HOL-Library.Word" "HOL-Library.Sublist"
begin

unbundle bit_operations_syntax

section \<open>Byte buffers\<close>

text \<open>
  The classifiers and the dimension extractor work on \<^verbatim>\<open>new Uint8Array(buffer)\<close>.
  A typed array is a finite sequence of bytes; an indexed read \<^verbatim>\<open>view[i]\<close> yields the
  byte when \<open>i\<close> is below \<^verbatim>\<open>view.length\<close> and the value \<^verbatim>\<open>undefined\<close> otherwise (it never
  throws). The read is modelled by \<open>read\<close>, with \<open>None\<close> for \<^verbatim>\<open>undefined\<close>.
\<close>

type_synonym byte = "8 word"

type_synonym Uint8Array = "byte list"

definition read :: "Uint8Array \<Rightarrow> nat \<Rightarrow> byte option" where
  "read view i = (if i < length view then Some (view ! i) else None)"

section \<open>Animated GIF detection\<close>

subsection \<open>The first-marker scan (the FFmpeg revisions)\<close>

text \<open>
  \<^verbatim>\<open>
  let pos = 13 // Skip header
  while (pos < view.length) {
    if (view[pos] === 0x21 && view[pos + 1] === 0xF9) {
      return true // Found Graphic Control Extension
    }
    pos++
  }
  return false
  \<close>
  Strict equality of \<^verbatim>\<open>undefined\<close> with a number is false, so a read past the end
  never equals a marker byte.
\<close>

function isAnimatedGIF_simple_loop :: "Uint8Array \<Rightarrow> nat \<Rightarrow> bool" where
  "isAnimatedGIF_simple_loop view pos =
     (if pos < length view then
        (if read view pos = Some 0x21 \<and> read view (pos + 1) = Some 0xF9 then True
         else isAnimatedGIF_simple_loop view (pos + 1))
      else False)"
  by pat_completeness auto
termination
  by (relation "measure (\<lambda>(view, pos). length view - pos)") auto

declare isAnimatedGIF_simple_loop.simps [simp del]

definition isAnimatedGIF_simple :: "Uint8Array \<Rightarrow> bool" where
  "isAnimatedGIF_simple view = isAnimatedGIF_simple_loop view 13"

subsection \<open>The frame-counting scan (the Cloudinary revision)\<close>

text \<open>
  \<^verbatim>\<open>
  let frames = 0
  let pos = 0
  if (view[0] !== 0x47 || view[1] !== 0x49 || view[2] !== 0x46) {
    return false
  }
  pos += 13
  while (pos < view.length) {
    if (view[pos] === 0x21 && view[pos + 1] === 0xF9) {
      frames++
      if (frames > 1) return true
      pos += 8
    } else if (view[pos] === 0x2C) {
      pos += 11
    } else {
      pos++
    }
  }
  return false
  \<close>
  The loop state is the pair \<open>(frames, pos)\<close>.
\<close>

function isAnimatedGIF_loop :: "Uint8Array \<Rightarrow> nat \<Rightarrow> nat \<Rightarrow> bool" where
  "isAnimatedGIF_loop view frames pos =
     (if pos < length view then
        (if read view pos = Some 0x21 \<and> read view (pos + 1) = Some 0xF9 then
           (if frames + 1 > 1 then True
            else isAnimatedGIF_loop view (frames + 1) (pos + 8))
         else if read view pos = Some 0x2C then isAnimatedGIF_loop view frames (pos + 11)
         else isAnimatedGIF_loop view frames (pos + 1))
      else False)"
  by pat_completeness auto
termination
  by (relation "measure (\<lambda>(view, frames, pos). length view - pos)") auto

declare isAnimatedGIF_loop.simps [simp del]

definition isAnimatedGIF :: "Uint8Array \<Rightarrow> bool" where
  "isAnimatedGIF view =
     (if read view 0 \<noteq> Some 0x47 \<or> read view 1 \<noteq> Some 0x49 \<or> read view 2 \<noteq> Some 0x46 then False
      else isAnimatedGIF_loop view 0 (0 + 13))"

subsection \<open>Vocabulary of the specification for the GIF scan\<close>

text \<open>
  The specification speaks of the magic signature, of the Graphic Control Extension
  marker and of the positions the scan visits. These notions are written down here,
  independently of the loops above, so that the loops can be compared with them.
\<close>

definition has_gif_signature :: "Uint8Array \<Rightarrow> bool" where
  "has_gif_signature view = (take 3 view = [0x47, 0x49, 0x46])"

definition gce_at :: "Uint8Array \<Rightarrow> nat \<Rightarrow> bool" where
  "gce_at view p = (p + 1 < length view \<and> view ! p = 0x21 \<and> view ! (p + 1) = 0xF9)"

definition advance :: "Uint8Array \<Rightarrow> nat \<Rightarrow> nat" where
  "advance view p =
     (if gce_at view p then p + 8
      else if p < length view \<and> view ! p = 0x2C then p + 11
      else p + 1)"

function scan_positions :: "Uint8Array \<Rightarrow> nat \<Rightarrow> nat list" where
  "scan_positions view p =
     (if p < length view then p # scan_positions view (advance view p) else [])"
  by pat_completeness auto
termination
  by (relation "measure (\<lambda>(view, p). length view - p)") (auto simp: advance_def)

declare scan_positions.simps [simp del]

definition gce_offsets :: "Uint8Array \<Rightarrow> nat list" where
  "gce_offsets view = filter (gce_at view) [13..<length view]"

subsection \<open>The block structure of a GIF file\<close>

text \<open>
  The claims also speak of the Graphic Control Extension \<^emph>\<open>blocks\<close> a file contains. In a
  GIF file the 13 bytes of header and logical screen descriptor are followed by the
  global colour table, if byte 10 announces one, and then by blocks up to the trailer
  \<^verbatim>\<open>3B\<close>: an extension is \<^verbatim>\<open>21\<close>, a label (\<^verbatim>\<open>F9\<close> for a Graphic Control Extension) and
  data sub-blocks; an image is \<^verbatim>\<open>2C\<close>, 9 bytes of descriptor, the local colour table if
  the descriptor announces one, one byte of code size and data sub-blocks. Data
  sub-blocks are a length byte and that many bytes each, ended by a length of 0.
  \<open>gif_gce_blocks\<close> counts the Graphic Control Extension blocks of a file built so, and
  is \<open>None\<close> for a buffer that is not. The lemma between the two functions is what the
  termination of the second needs.
\<close>

definition colour_table_bytes :: "byte \<Rightarrow> nat" where
  "colour_table_bytes packed =
     (if bit packed 7 then 3 * 2 ^ (unat (packed AND 7) + 1) else 0)"

function skip_sub_blocks :: "Uint8Array \<Rightarrow> Uint8Array option" where
  "skip_sub_blocks [] = None"
| "skip_sub_blocks (n # xs) =
     (if n = 0 then Some xs
      else if unat n \<le> length xs then skip_sub_blocks (drop (unat n) xs)
      else None)"
  by pat_completeness auto
termination
  by (relation "measure length") auto

lemma skip_sub_blocks_suffix: "skip_sub_blocks xs = Some r \<Longrightarrow> suffix r xs"
proof (induction xs rule: skip_sub_blocks.induct)
  case 1
  then show ?case by simp
next
  case (2 n xs)
  show ?case
  proof (cases "n = 0")
    case True
    with 2(2) show ?thesis by (simp add: suffix_Cons)
  next
    case False
    with 2(2) have le: "unat n \<le> length xs" and s: "skip_sub_blocks (drop (unat n) xs) = Some r"
      by (simp_all split: if_splits)
    from 2(1) [OF False le s] have "suffix r (drop (unat n) xs)" .
    then have "suffix r xs" by (rule suffix_order.trans) (rule suffix_drop)
    then show ?thesis by (simp add: suffix_Cons)
  qed
qed

lemma skip_sub_blocks_length: "skip_sub_blocks xs = Some r \<Longrightarrow> length r \<le> length xs"
  by (auto dest!: skip_sub_blocks_suffix simp: suffix_def)

function gce_blocks :: "Uint8Array \<Rightarrow> nat option" where
  "gce_blocks bs =
     (case bs of
        [] \<Rightarrow> None
      | b # rest \<Rightarrow>
          if b = 0x3B then Some 0
          else if b = 0x21 then
            (case rest of
               [] \<Rightarrow> None
             | label # data \<Rightarrow>
                 (case skip_sub_blocks data of
                    None \<Rightarrow> None
                  | Some r \<Rightarrow>
                      map_option (\<lambda>k. if label = 0xF9 then Suc k else k) (gce_blocks r)))
          else if b = 0x2C then
            (if length rest < 9 then None
             else
               (case drop (9 + colour_table_bytes (rest ! 8)) rest of
                  [] \<Rightarrow> None
                | lzw # data \<Rightarrow>
                    (case skip_sub_blocks data of
                       None \<Rightarrow> None
                     | Some r \<Rightarrow> gce_blocks r)))
          else None)"
  by pat_completeness auto
termination
proof (relation "measure length", goal_cases)
  case 1
  then show ?case by simp
next
  case (2 bs b rest label data r)
  then show ?case using skip_sub_blocks_length [of data r] by simp
next
  case (3 bs b rest lzw data r)
  have "length (drop (9 + colour_table_bytes (rest ! 8)) rest) \<le> length rest" by simp
  with 3 show ?case using skip_sub_blocks_length [of data r] by simp
qed

declare gce_blocks.simps [simp del]

definition gif_gce_blocks :: "Uint8Array \<Rightarrow> nat option" where
  "gif_gce_blocks view =
     (if has_gif_signature view \<and> 13 \<le> length view
      then gce_blocks (drop (13 + colour_table_bytes (view ! 10)) view)
      else None)"

subsection \<open>Sample buffers\<close>

text \<open>
  Small GIF files, byte by byte, on which the classifiers are evaluated below. Each starts
  with the 13 bytes of header and logical screen descriptor (\<^verbatim>\<open>GIF89a\<close>, a 1x1 screen, no
  global colour table). A Graphic Control Extension block is the 8 bytes
  \<^verbatim>\<open>21 F9 04 00 0A 00 00 00\<close>; an image descriptor is \<^verbatim>\<open>2C\<close> and 9 more bytes, here with a
  local colour table of two entries (6 bytes), then the image data and, last, the
  trailer \<^verbatim>\<open>3B\<close>.
  \<^item> \<open>gif_single_frame\<close>: one frame with its extension block;
  \<^item> \<open>gif_two_frames\<close>: two frames, colours white and black;
  \<^item> \<open>gif_gray_frames\<close>: the same two frames with the colour \<^verbatim>\<open>2C 2C 2C\<close> (a dark grey)
    in place of white;
  \<^item> \<open>gif_marker_colour_frame\<close>: the single frame with the colour \<^verbatim>\<open>FF 21 F9\<close> in place
    of white;
  \<^item> \<open>gif_cut_in_marker\<close>, \<open>gif_cut_after_marker\<close>, \<open>gif_cut_after_second_marker\<close>:
    files that end inside or right after the two marker bytes.
\<close>

definition gif_single_frame :: Uint8Array where
  "gif_single_frame =
     [0x47, 0x49, 0x46, 0x38, 0x39, 0x61, 0x01, 0x00, 0x01, 0x00, 0x00, 0x00, 0x00,
      0x21, 0xF9, 0x04, 0x00, 0x0A, 0x00, 0x00, 0x00,
      0x2C, 0x00, 0x00, 0x00, 0x00, 0x01, 0x00, 0x01, 0x00, 0x80,
      0xFF, 0xFF, 0xFF, 0x00, 0x00, 0x00,
      0x02, 0x02, 0x44, 0x01, 0x00,
      0x3B]"

definition gif_two_frames :: Uint8Array where
  "gif_two_frames =
     [0x47, 0x49, 0x46, 0x38, 0x39, 0x61, 0x01, 0x00, 0x01, 0x00, 0x00, 0x00, 0x00,
      0x21, 0xF9, 0x04, 0x00, 0x0A, 0x00, 0x00, 0x00,
      0x2C, 0x00, 0x00, 0x00, 0x00, 0x01, 0x00, 0x01, 0x00, 0x80,
      0xFF, 0xFF, 0xFF, 0x00, 0x00, 0x00,
      0x02, 0x02, 0x44, 0x01, 0x00,
      0x21, 0xF9, 0x04, 0x00, 0x0A, 0x00, 0x00, 0x00,
      0x2C, 0x00, 0x00, 0x00, 0x00, 0x01, 0x00, 0x01, 0x00, 0x80,
      0xFF, 0xFF, 0xFF, 0x00, 0x00, 0x00,
      0x02, 0x02, 0x4C, 0x01, 0x00,
      0x3B]"

definition gif_gray_frames :: Uint8Array where
  "gif_gray_frames =
     [0x47, 0x49, 0x46, 0x38, 0x39, 0x61, 0x01, 0x00, 0x01, 0x00, 0x00, 0x00, 0x00,
      0x21, 0xF9, 0x04, 0x00, 0x0A, 0x00, 0x00, 0x00,
      0x2C, 0x00, 0x00, 0x00, 0x00, 0x01, 0x00, 0x01, 0x00, 0x80,
      0x2C, 0x2C, 0x2C, 0xFF, 0xFF, 0xFF,
      0x02, 0x02, 0x44, 0x01, 0x00,
      0x21, 0xF9, 0x04, 0x00, 0x0A, 0x00, 0x00, 0x00,
      0x2C, 0x00, 0x00, 0x00, 0x00, 0x01, 0x00, 0x01, 0x00, 0x80,
      0x2C, 0x2C, 0x2C, 0xFF, 0xFF, 0xFF,
      0x02, 0x02, 0x4C, 0x01, 0x00,
      0x3B]"

definition gif_marker_colour_frame :: Uint8Array where
  "gif_marker_colour_frame =
     [0x47, 0x49, 0x46, 0x38, 0x39, 0x61, 0x01, 0x00, 0x01, 0x00, 0x00, 0x00, 0x00,
      0x21, 0xF9, 0x04, 0x00, 0x0A, 0x00, 0x00, 0x00,
      0x2C, 0x00, 0x00, 0x00, 0x00, 0x01, 0x00, 0x01, 0x00, 0x80,
      0xFF, 0x21, 0xF9, 0x00, 0x00, 0x00,
      0x02, 0x02, 0x44, 0x01, 0x00,
      0x3B]"

definition gif_cut_in_marker :: Uint8Array where
  "gif_cut_in_marker =
     [0x47, 0x49, 0x46, 0x38, 0x39, 0x61, 0x01, 0x00, 0x01, 0x00, 0x00, 0x00, 0x00,
      0x21]"

definition gif_cut_after_marker :: Uint8Array where
  "gif_cut_after_marker =
     [0x47, 0x49, 0x46, 0x38, 0x39, 0x61, 0x01, 0x00, 0x01, 0x00, 0x00, 0x00, 0x00,
      0x21, 0xF9]"

definition gif_cut_after_second_marker :: Uint8Array where
  "gif_cut_after_second_marker =
     [0x47, 0x49, 0x46, 0x38, 0x39, 0x61, 0x01, 0x00, 0x01, 0x00, 0x00, 0x00, 0x00,
      0x21, 0xF9, 0x04, 0x00, 0x0A, 0x00, 0x00, 0x00,
      0x21, 0xF9]"

section \<open>Dimensions\<close>

text \<open>
  \<^verbatim>\<open>interface Dimensions { width: number; height: number }\<close>

  A JavaScript number is a double: a finite value, one of the two infinities, or NaN.
  Every finite double is a real number, so the finite values are modelled by \<open>real\<close>
  (which has more values than there are doubles; no claim here depends on rounding).
  At run time a field declared \<^verbatim>\<open>number\<close> can also hold \<^verbatim>\<open>undefined\<close>: the array
  destructuring in \<^verbatim>\<open>getSVGDimensions\<close> yields it for a missing element.
\<close>

datatype number = NaN | PosInfinity | NegInfinity | Finite real

datatype jsvalue = Undefined | Num number

record Dimensions =
  width :: jsvalue
  height :: jsvalue

text \<open>
  The failures the specification names. A call either returns (\<open>Inr\<close>) or throws
  (\<open>Inl\<close>); neither extractor contains a \<^verbatim>\<open>throw\<close>, and none of the operations they use
  (typed-array reads, bitwise operators, \<^verbatim>\<open>match\<close>, \<^verbatim>\<open>split\<close>, \<^verbatim>\<open>map\<close>, \<^verbatim>\<open>Number\<close>,
  \<^verbatim>\<open>parseFloat\<close>) throws on the arguments given, so both models only ever return.
\<close>

datatype error = InvalidFormat | MalformedInput | AmbiguousParse

definition positive :: "jsvalue \<Rightarrow> bool" where
  "positive v =
     (case v of
        Num (Finite r) \<Rightarrow> 0 < r
      | Num PosInfinity \<Rightarrow> True
      | _ \<Rightarrow> False)"

subsection \<open>GIF\<close>

text \<open>
  \<^verbatim>\<open>
  const view = new Uint8Array(buffer)
  const width = view[6] | (view[7] << 8)
  const height = view[8] | (view[9] << 8)
  return { width, height }
  \<close>
  The operators \<^verbatim>\<open>|\<close> and \<^verbatim>\<open><<\<close> convert their operands to 32-bit integers first;
  \<^verbatim>\<open>undefined\<close> converts to NaN and NaN to 0. The result is a signed 32-bit integer.
\<close>

definition ToInt32 :: "byte option \<Rightarrow> 32 word" where
  "ToInt32 v = (case v of Some b \<Rightarrow> ucast b | None \<Rightarrow> 0)"

definition int32_value :: "32 word \<Rightarrow> jsvalue" where
  "int32_value w = Num (Finite (of_int (sint w)))"

definition getGIFDimensions :: "Uint8Array \<Rightarrow> error + Dimensions" where
  "getGIFDimensions view =
     (let width = ToInt32 (read view 6) OR push_bit 8 (ToInt32 (read view 7));
          height = ToInt32 (read view 8) OR push_bit 8 (ToInt32 (read view 9))
      in Inr \<lparr>width = int32_value width, height = int32_value height\<rparr>)"

text \<open>
  The specification's reading of a short buffer, for comparison: a byte past the end
  counts as 0.
\<close>

definition byte_or_zero :: "Uint8Array \<Rightarrow> nat \<Rightarrow> int" where
  "byte_or_zero view i = (if i < length view then uint (view ! i) else 0)"

definition gif_dimensions_header :: Uint8Array where
  "gif_dimensions_header =
     [0x47, 0x49, 0x46, 0x38, 0x39, 0x61, 0x0A, 0x00, 0x1E, 0x00, 0x00, 0x00, 0x00]"

definition gif_zero_header :: Uint8Array where
  "gif_zero_header =
     [0x47, 0x49, 0x46, 0x38, 0x39, 0x61, 0x00, 0x00, 0x00, 0x00, 0x00, 0x00, 0x00]"

definition gif_signature_only :: Uint8Array where
  "gif_signature_only = [0x47, 0x49, 0x46, 0x38, 0x39, 0x61]"

definition gif_nine_bytes :: Uint8Array where
  "gif_nine_bytes = [0x47, 0x49, 0x46, 0x38, 0x39, 0x61, 0x0A, 0x00, 0x1E]"

subsection \<open>SVG\<close>

text \<open>
  A text is a \<open>string\<close>, a list of characters. The program compares characters only
  with the ASCII characters of its patterns and of the space, so it makes no difference
  to the functions below whether a character outside ASCII is one element of the list
  or several.
\<close>

text \<open>
  \<^verbatim>\<open>svgText.match(/viewBox="([^"]+)"/)\<close> finds the leftmost place where the text reads
  \<^verbatim>\<open>viewBox="\<close>, then one or more characters other than a double quote, then a double
  quote; its result is \<^verbatim>\<open>null\<close> or an array whose element 1 is the text between the
  quotes. The class \<^verbatim>\<open>[^"]+\<close> cannot give back a character it has taken (what follows
  would have to be a quote), so at each start there is at most one way to match:
  \<open>match_here\<close>. The same holds for the patterns with \<^verbatim>\<open>width\<close> and \<^verbatim>\<open>height\<close>.
\<close>

definition match_here :: "string \<Rightarrow> string \<Rightarrow> string option" where
  "match_here name s =
     (if prefix (name @ [CHR ''='', CHR 0x22]) s then
        (let rest = drop (length name + 2) s;
             v = takeWhile (\<lambda>c. c \<noteq> CHR 0x22) rest
         in if v \<noteq> [] \<and> length v < length rest then Some v else None)
      else None)"

fun match_attr :: "string \<Rightarrow> string \<Rightarrow> string option" where
  "match_attr name [] = match_here name []"
| "match_attr name (c # s) =
     (case match_here name (c # s) of Some v \<Rightarrow> Some v | None \<Rightarrow> match_attr name s)"

text \<open>
  \<^verbatim>\<open>viewBox.split(' ')\<close> cuts the text at every single space; two spaces in a row give
  an empty piece, and a text without a space (the empty text too) gives one piece.
\<close>

fun split_on :: "char \<Rightarrow> string \<Rightarrow> string list" where
  "split_on sep [] = [[]]"
| "split_on sep (c # s) =
     (if c = sep then [] # split_on sep s
      else (case split_on sep s of t # ts \<Rightarrow> (c # t) # ts | [] \<Rightarrow> [[c]]))"

text \<open>
  \<^verbatim>\<open>const [, , w, h] = viewBox.split(' ').map(Number)\<close> binds \<^verbatim>\<open>w\<close> and \<^verbatim>\<open>h\<close> to the
  elements 2 and 3 of the array, or to \<^verbatim>\<open>undefined\<close> where the array is shorter.
\<close>

definition element_at :: "number list \<Rightarrow> nat \<Rightarrow> jsvalue" where
  "element_at xs i = (if i < length xs then Num (xs ! i) else Undefined)"

text \<open>
  \<^verbatim>\<open>
  let width = 800
  let height = 600
  const viewBoxMatch = svgText.match(/viewBox="([^"]+)"/)
  if (viewBoxMatch) {
    const [, viewBox] = viewBoxMatch
    const [, , w, h] = viewBox.split(' ').map(Number)
    width = w
    height = h
  } else {
    const widthMatch = svgText.match(/width="([^"]+)"/)
    const heightMatch = svgText.match(/height="([^"]+)"/)
    if (widthMatch) { width = parseFloat(widthMatch[1]) }
    if (heightMatch) { height = parseFloat(heightMatch[1]) }
  }
  return { width, height }
  \<close>
  \<^verbatim>\<open>Number\<close> and \<^verbatim>\<open>parseFloat\<close> are functions of the language, not of this program:
  they are parameters of the model, and what is proved holds for every pair of
  functions from strings to numbers.
\<close>

definition getSVGDimensions ::
  "(string \<Rightarrow> number) \<Rightarrow> (string \<Rightarrow> number) \<Rightarrow> string \<Rightarrow> error + Dimensions" where
  "getSVGDimensions Number parseFloat svgText =
     (case match_attr ''viewBox'' svgText of
        Some viewBox \<Rightarrow>
          (let nums = map Number (split_on CHR '' '' viewBox)
           in Inr \<lparr>width = element_at nums 2, height = element_at nums 3\<rparr>)
      | None \<Rightarrow>
          Inr \<lparr>width = (case match_attr ''width'' svgText of
                          Some v \<Rightarrow> Num (parseFloat v)
                        | None \<Rightarrow> Num (Finite 800)),
               height = (case match_attr ''height'' svgText of
                          Some v \<Rightarrow> Num (parseFloat v)
                        | None \<Rightarrow> Num (Finite 600))\<rparr>)"

text \<open>
  The specification's words for the SVG path: an attribute is present when the text
  holds the name, an equals sign and a non-empty double-quoted value; the tokens of a
  value are its maximal runs of characters other than white space.
\<close>

definition has_attr :: "string \<Rightarrow> string \<Rightarrow> bool" where
  "has_attr name s =
     (\<exists>pre v post. s = pre @ name @ [CHR ''='', CHR 0x22] @ v @ [CHR 0x22] @ post \<and>
        v \<noteq> [] \<and> CHR 0x22 \<notin> set v)"




text \<open>
  A stand-in for the two parsers, to run the extractor on examples. On a string of
  decimal digits both \<^verbatim>\<open>Number\<close> and \<^verbatim>\<open>parseFloat\<close> yield the integer it denotes (exactly,
  below \<open>2 ^ 53\<close>); on the empty string \<^verbatim>\<open>Number\<close> yields 0 and \<^verbatim>\<open>parseFloat\<close> yields
  NaN. The stand-ins do that, and answer NaN on every other string, where they are not
  meant to follow the language.
\<close>

definition digit_value :: "char \<Rightarrow> nat option" where
  "digit_value c =
     (if 48 \<le> (of_char c :: nat) \<and> (of_char c :: nat) \<le> 57 then Some (of_char c - 48)
      else None)"

fun digits_value :: "nat \<Rightarrow> string \<Rightarrow> nat option" where
  "digits_value acc [] = Some acc"
| "digits_value acc (c # s) =
     (case digit_value c of None \<Rightarrow> None | Some d \<Rightarrow> digits_value (10 * acc + d) s)"

definition digits_Number :: "string \<Rightarrow> number" where
  "digits_Number s =
     (if s = [] then Finite 0
      else (case digits_value 0 s of Some n \<Rightarrow> Finite (of_nat n) | None \<Rightarrow> NaN))"

definition digits_parseFloat :: "string \<Rightarrow> number" where
  "digits_parseFloat s =
     (if s = [] then NaN
      else (case digits_value 0 s of Some n \<Rightarrow> Finite (of_nat n) | None \<Rightarrow> NaN))"



definition svg_tab_viewbox_text :: string where
  "svg_tab_viewbox_text =
     ''<svg viewBox=\"0 0'' @ [CHR 0x09] @ ''120'' @ [CHR 0x09] @ ''80\">''"



definition svg_zero_text :: string where
  "svg_zero_text = ''<svg width=\"0\" height=\"0\">''"

section \<open>Animated SVG detection\<close>

text \<open>
  \<^verbatim>\<open>
  const animationElements = ['<animate', '<animateMotion', '<animateTransform', '<set']
  return animationElements.some(element => svgContent.includes(element))
  \<close>
  \<^verbatim>\<open>includes\<close> answers whether the search string occurs at some index of the text. The
  FFmpeg revisions list the four strings in another order (\<open>isAnimatedSVG_ffmpeg\<close>).
\<close>

fun string_includes :: "string \<Rightarrow> string \<Rightarrow> bool" where
  "string_includes [] searchString = (searchString = [])"
| "string_includes (c # s) searchString =
     (prefix searchString (c # s) \<or> string_includes s searchString)"

definition isAnimatedSVG :: "string \<Rightarrow> bool" where
  "isAnimatedSVG svgContent =
     list_ex (\<lambda>element. string_includes svgContent element)
       [''<animate'', ''<animateMotion'', ''<animateTransform'', ''<set'']"

definition isAnimatedSVG_ffmpeg :: "string \<Rightarrow> bool" where
  "isAnimatedSVG_ffmpeg svgText =
     list_ex (\<lambda>element. string_includes svgText element)
       [''<animate'', ''<animateTransform'', ''<animateMotion'', ''<set'']"

section \<open>Properties of the GIF scans\<close>

subsection \<open>The frame-counting loop counts the markers on its path\<close>

lemma gce_at_iff: "gce_at view p \<longleftrightarrow> read view p = Some 0x21 \<and> read view (p + 1) = Some 0xF9"
  by (auto simp: gce_at_def read_def)

lemma descriptor_iff: "read view p = Some 0x2C \<longleftrightarrow> p < length view \<and> view ! p = 0x2C"
  by (auto simp: read_def)

lemma loop_end: "\<not> pos < length view \<Longrightarrow> isAnimatedGIF_loop view frames pos = False"
  by (subst isAnimatedGIF_loop.simps) simp

lemma loop_gce:
  "pos < length view \<Longrightarrow> gce_at view pos \<Longrightarrow>
   isAnimatedGIF_loop view frames pos =
     (if frames = 0 then isAnimatedGIF_loop view (frames + 1) (pos + 8) else True)"
  by (subst isAnimatedGIF_loop.simps) (auto simp: gce_at_iff)

lemma loop_descriptor:
  "pos < length view \<Longrightarrow> \<not> gce_at view pos \<Longrightarrow> read view pos = Some 0x2C \<Longrightarrow>
   isAnimatedGIF_loop view frames pos = isAnimatedGIF_loop view frames (pos + 11)"
  by (subst isAnimatedGIF_loop.simps) (auto simp: gce_at_iff)

lemma loop_other:
  "pos < length view \<Longrightarrow> \<not> gce_at view pos \<Longrightarrow> read view pos \<noteq> Some 0x2C \<Longrightarrow>
   isAnimatedGIF_loop view frames pos = isAnimatedGIF_loop view frames (pos + 1)"
  by (subst isAnimatedGIF_loop.simps) (auto simp: gce_at_iff)

lemma scan_positions_end: "\<not> p < length view \<Longrightarrow> scan_positions view p = []"
  by (subst scan_positions.simps) simp

lemma scan_positions_step:
  "p < length view \<Longrightarrow> scan_positions view p = p # scan_positions view (advance view p)"
  by (subst scan_positions.simps) simp

lemma loop_count:
  "isAnimatedGIF_loop view frames pos =
     ((if frames = 0 then 2 else 1) \<le> length (filter (gce_at view) (scan_positions view pos)))"
proof (induction view frames pos rule: isAnimatedGIF_loop.induct)
  case (1 view frames pos)
  show ?case
  proof (cases "pos < length view")
    case False
    then show ?thesis by (simp add: loop_end scan_positions_end)
  next
    case inb: True
    show ?thesis
    proof (cases "gce_at view pos")
      case True
      then have adv: "advance view pos = pos + 8" by (simp add: advance_def)
      from True have m: "read view pos = Some 0x21 \<and> read view (pos + 1) = Some 0xF9"
        by (simp add: gce_at_iff)
      show ?thesis
      proof (cases "frames = 0")
        case True
        have "\<not> 1 < frames + 1" using True by simp
        from 1(1) [OF inb m this]
        have "isAnimatedGIF_loop view (frames + 1) (pos + 8) =
           (1 \<le> length (filter (gce_at view) (scan_positions view (pos + 8))))" by simp
        then show ?thesis
          using True \<open>gce_at view pos\<close>
          by (simp add: loop_gce [OF inb] scan_positions_step [OF inb] adv)
      next
        case False
        then show ?thesis
          using \<open>gce_at view pos\<close>
          by (simp add: loop_gce [OF inb] scan_positions_step [OF inb] adv)
      qed
    next
      case nog: False
      then have nm: "\<not> (read view pos = Some 0x21 \<and> read view (pos + 1) = Some 0xF9)"
        by (simp add: gce_at_iff)
      show ?thesis
      proof (cases "read view pos = Some 0x2C")
        case True
        then have adv: "advance view pos = pos + 11"
          using nog by (simp add: advance_def descriptor_iff)
        from 1(2) [OF inb nm True] show ?thesis
          using nog by (simp add: loop_descriptor [OF inb nog True] scan_positions_step [OF inb] adv)
      next
        case False
        then have adv: "advance view pos = pos + 1"
          using nog inb by (simp add: advance_def descriptor_iff)
        from 1(3) [OF inb nm False] show ?thesis
          using nog by (simp add: loop_other [OF inb nog False] scan_positions_step [OF inb] adv)
      qed
    qed
  qed
qed

lemma signature_iff:
  "has_gif_signature view \<longleftrightarrow>
     read view 0 = Some 0x47 \<and> read view 1 = Some 0x49 \<and> read view 2 = Some 0x46"
proof (cases view)
  case Nil
  then show ?thesis by (simp add: has_gif_signature_def read_def)
next
  case (Cons a v1)
  show ?thesis
  proof (cases v1)
    case Nil
    with Cons show ?thesis by (simp add: has_gif_signature_def read_def)
  next
    case (Cons b v2)
    show ?thesis
    proof (cases v2)
      case Nil
      with Cons \<open>view = a # v1\<close> show ?thesis by (simp add: has_gif_signature_def read_def)
    next
      case (Cons c v3)
      with \<open>v1 = b # v2\<close> \<open>view = a # v1\<close> show ?thesis
        by (auto simp: has_gif_signature_def read_def)
    qed
  qed
qed

lemma isAnimatedGIF_count: "isAnimatedGIF view =
   (has_gif_signature view \<and> 2 \<le> length (filter (gce_at view) (scan_positions view 13)))"
  by (auto simp: isAnimatedGIF_def signature_iff loop_count)

subsection \<open>The scan path is increasing, so it meets each marker at most once\<close>

lemma advance_gt: "p < advance view p"
  by (simp add: advance_def)

lemma scan_positions_bounds:
  "q \<in> set (scan_positions view p) \<Longrightarrow> p \<le> q \<and> q < length view"
proof (induction view p rule: scan_positions.induct)
  case (1 view p)
  show ?case
  proof (cases "p < length view")
    case False
    with 1(2) show ?thesis by (simp add: scan_positions_end)
  next
    case True
    from 1(2) have "q = p \<or> q \<in> set (scan_positions view (advance view p))"
      by (simp add: scan_positions_step [OF True])
    then show ?thesis
    proof
      assume "q = p"
      with True show ?thesis by simp
    next
      assume "q \<in> set (scan_positions view (advance view p))"
      from 1(1) [OF True this] advance_gt [of p view] show ?thesis by simp
    qed
  qed
qed

lemma scan_positions_distinct: "distinct (scan_positions view p)"
proof (induction view p rule: scan_positions.induct)
  case (1 view p)
  show ?case
  proof (cases "p < length view")
    case False
    then show ?thesis by (simp add: scan_positions_end)
  next
    case True
    have "p \<notin> set (scan_positions view (advance view p))"
      using scan_positions_bounds [of p view "advance view p"] advance_gt [of p view] by auto
    with 1 [OF True] show ?thesis by (simp add: scan_positions_step [OF True])
  qed
qed

lemma scanned_le_offsets:
  "13 \<le> p \<Longrightarrow> length (filter (gce_at view) (scan_positions view p)) \<le> length (gce_offsets view)"
proof -
  assume p: "13 \<le> p"
  let ?xs = "filter (gce_at view) (scan_positions view p)"
  have d: "distinct ?xs" by (simp add: scan_positions_distinct)
  have sub: "set ?xs \<subseteq> set (gce_offsets view)"
  proof
    fix q assume "q \<in> set ?xs"
    then have q: "q \<in> set (scan_positions view p)" and g: "gce_at view q" by simp_all
    from scan_positions_bounds [OF q] p have "13 \<le> q \<and> q < length view" by simp
    with g show "q \<in> set (gce_offsets view)" by (simp add: gce_offsets_def)
  qed
  have "length ?xs = card (set ?xs)" using distinct_card [OF d] by (rule sym)
  also have "\<dots> \<le> card (set (gce_offsets view))" by (rule card_mono [OF finite_set sub])
  also have "\<dots> \<le> length (gce_offsets view)" by (rule card_length)
  finally show ?thesis .
qed

subsection \<open>The first-marker loop finds any marker from offset 13 on\<close>

lemma simple_loop_end:
  "\<not> pos < length view \<Longrightarrow> isAnimatedGIF_simple_loop view pos = False"
  by (subst isAnimatedGIF_simple_loop.simps) simp

lemma simple_loop_step:
  "pos < length view \<Longrightarrow>
   isAnimatedGIF_simple_loop view pos = (gce_at view pos \<or> isAnimatedGIF_simple_loop view (pos + 1))"
  by (subst isAnimatedGIF_simple_loop.simps) (auto simp: gce_at_iff)

lemma simple_loop_filter:
  "isAnimatedGIF_simple_loop view pos = (filter (gce_at view) [pos..<length view] \<noteq> [])"
proof (induction view pos rule: isAnimatedGIF_simple_loop.induct)
  case (1 view pos)
  show ?case
  proof (cases "pos < length view")
    case False
    then show ?thesis by (simp add: simple_loop_end)
  next
    case True
    show ?thesis
    proof (cases "gce_at view pos")
      case g: True
      then show ?thesis using True by (simp add: simple_loop_step upt_conv_Cons)
    next
      case g: False
      then have "\<not> (read view pos = Some 0x21 \<and> read view (pos + 1) = Some 0xF9)"
        by (simp add: gce_at_iff)
      from 1 [OF True this] show ?thesis using True g
        by (simp add: simple_loop_step upt_conv_Cons)
    qed
  qed
qed

lemma isAnimatedGIF_simple_offsets: "isAnimatedGIF_simple view = (gce_offsets view \<noteq> [])"
  by (simp add: isAnimatedGIF_simple_def simple_loop_filter gce_offsets_def)

subsection \<open>Consequences for both scans\<close>

lemma isAnimatedGIF_needs_two: "isAnimatedGIF view \<Longrightarrow> 2 \<le> length (gce_offsets view)"
  using scanned_le_offsets [of 13 view] by (simp add: isAnimatedGIF_count)

lemma no_marker_past_end:
  "length view \<le> p + 1 \<Longrightarrow> \<not> (read view p = Some 0x21 \<and> read view (p + 1) = Some 0xF9)"
  by (simp add: read_def)

lemma short_no_offsets: "length view \<le> 14 \<Longrightarrow> gce_offsets view = []"
  by (auto simp: gce_offsets_def gce_at_def filter_empty_conv)

lemma no_offsets_static:
  "gce_offsets view = [] \<Longrightarrow> isAnimatedGIF view = False \<and> isAnimatedGIF_simple view = False"
  using isAnimatedGIF_needs_two [of view] by (auto simp: isAnimatedGIF_simple_offsets)

subsection \<open>A Graphic Control Extension block shows its marker\<close>

lemma scanned_subset:
  "set (filter (gce_at view) (scan_positions view 13)) \<subseteq> set (gce_offsets view)"
proof
  fix q assume "q \<in> set (filter (gce_at view) (scan_positions view 13))"
  then have q: "q \<in> set (scan_positions view 13)" and g: "gce_at view q" by simp_all
  from scan_positions_bounds [OF q] have "13 \<le> q \<and> q < length view" .
  with g show "q \<in> set (gce_offsets view)" by (simp add: gce_offsets_def)
qed

lemma sublist_suffix: "sublist m r \<Longrightarrow> suffix r xs \<Longrightarrow> sublist m xs"
  by (meson sublist_order.order_trans suffix_imp_sublist)

lemma gce_blocks_marker:
  "gce_blocks bs = Some (Suc n) \<Longrightarrow> sublist [0x21, 0xF9] bs"
proof (induction bs arbitrary: n rule: gce_blocks.induct)
  case (1 bs)
  from "1.prems" obtain b rest where bs: "bs = b # rest"
    by (cases bs) (simp_all add: gce_blocks.simps)
  from "1.prems" bs have nt: "b \<noteq> 0x3B"
    by (auto simp: gce_blocks.simps)
  show ?case
  proof (cases "b = 0x21")
    case ext: True
    from "1.prems" bs ext obtain label data where rest: "rest = label # data"
      by (cases rest) (simp_all add: gce_blocks.simps)
    from "1.prems" bs ext rest obtain r where r: "skip_sub_blocks data = Some r"
      by (cases "skip_sub_blocks data") (simp_all add: gce_blocks.simps)
    show ?thesis
    proof (cases "label = 0xF9")
      case True
      with bs ext rest have "prefix [0x21, 0xF9] bs" by simp
      then show ?thesis by (rule prefix_imp_sublist)
    next
      case False
      with "1.prems" bs ext rest r have "gce_blocks r = Some (Suc n)"
        by (auto simp: gce_blocks.simps [of "0x21 # label # data"])
      from "1.IH"(1) [OF bs nt ext rest r this] have "sublist [0x21, 0xF9] r" .
      moreover from skip_sub_blocks_suffix [OF r] have "suffix r bs"
        by (simp add: bs rest suffix_Cons)
      ultimately show ?thesis by (rule sublist_suffix)
    qed
  next
    case noext: False
    with "1.prems" bs nt have img: "b = 0x2C"
      by (auto simp: gce_blocks.simps split: if_splits)
    from "1.prems" bs img have len: "\<not> length rest < 9"
      by (auto simp: gce_blocks.simps split: if_splits)
    let ?after = "drop (9 + colour_table_bytes (rest ! 8)) rest"
    from "1.prems" bs img len obtain lzw data where after: "?after = lzw # data"
      by (cases ?after) (simp_all add: gce_blocks.simps)
    from "1.prems" bs img len after obtain r where r: "skip_sub_blocks data = Some r"
      by (cases "skip_sub_blocks data") (simp_all add: gce_blocks.simps)
    from "1.prems" bs img len after r have "gce_blocks r = Some (Suc n)"
      by (simp add: gce_blocks.simps [of "0x2C # rest"])
    from "1.IH"(2) [OF bs nt noext img len after r this] have "sublist [0x21, 0xF9] r" .
    moreover have "suffix r bs"
    proof -
      from skip_sub_blocks_suffix [OF r] have "suffix r (lzw # data)" by (simp add: suffix_Cons)
      with after have "suffix r ?after" by simp
      then have "suffix r rest" by (rule suffix_order.trans) (rule suffix_drop)
      then show ?thesis by (simp add: bs suffix_Cons)
    qed
    ultimately show ?thesis by (rule sublist_suffix)
  qed
qed

lemma marker_in_tail:
  assumes "sublist [0x21, 0xF9] (drop k view)" and "13 \<le> k"
  shows "gce_offsets view \<noteq> []"
proof -
  from assms(1) obtain ps ss where d: "drop k view = ps @ [0x21, 0xF9] @ ss"
    by (auto simp: sublist_def)
  then have "drop k view \<noteq> []" by auto
  then have k: "k < length view" by simp
  let ?p = "k + length ps"
  have v: "view = take k view @ ps @ [0x21, 0xF9] @ ss"
    using d append_take_drop_id [of k view] by simp
  have lt: "length (take k view) = k" using k by simp
  have len: "?p + 1 < length view"
    using arg_cong [OF v, of length] lt by simp
  have "view ! ?p = (take k view @ ps @ [0x21, 0xF9] @ ss) ! ?p" using v by simp
  also have "\<dots> = 0x21" using lt by (simp add: nth_append)
  finally have a: "view ! ?p = 0x21" .
  have "view ! (?p + 1) = (take k view @ ps @ [0x21, 0xF9] @ ss) ! (?p + 1)" using v by simp
  also have "\<dots> = 0xF9" using lt by (simp add: nth_append)
  finally have b: "view ! (?p + 1) = 0xF9" .
  from len a b have "gce_at view ?p" by (simp add: gce_at_def)
  moreover have "?p \<in> set [13..<length view]" using assms(2) len by simp
  ultimately have "?p \<in> set (gce_offsets view)" by (simp add: gce_offsets_def)
  then show ?thesis by auto
qed

lemma gif_gce_blocks_simple:
  "gif_gce_blocks view = Some (Suc n) \<Longrightarrow> isAnimatedGIF_simple view = True"
proof -
  assume a: "gif_gce_blocks view = Some (Suc n)"
  then have "gce_blocks (drop (13 + colour_table_bytes (view ! 10)) view) = Some (Suc n)"
    by (simp add: gif_gce_blocks_def split: if_splits)
  then have "sublist [0x21, 0xF9] (drop (13 + colour_table_bytes (view ! 10)) view)"
    by (rule gce_blocks_marker)
  then have "gce_offsets view \<noteq> []" by (rule marker_in_tail) simp
  then show ?thesis by (simp add: isAnimatedGIF_simple_offsets)
qed

section \<open>Properties of the GIF dimension extractor\<close>

lemma uint_byte_lt: "uint (a :: byte) < 256"
  using uint_bounded [of a] by simp

lemma uint_ucast_byte: "uint (ucast (a :: byte) :: 32 word) = uint a"
  using uint_byte_lt [of a] by (simp add: unsigned_ucast_eq take_bit_int_eq_self)

lemma uint_ToInt32: "uint (ToInt32 (read view i)) = byte_or_zero view i"
  by (simp add: ToInt32_def read_def byte_or_zero_def uint_ucast_byte)

lemma byte_or_zero_range: "0 \<le> byte_or_zero view i \<and> byte_or_zero view i < 256"
  using uint_byte_lt [of "view ! i"] by (simp add: byte_or_zero_def)

lemma uint_shifted:
  "uint (push_bit 8 (ToInt32 (read view i))) = 256 * byte_or_zero view i"
proof -
  have "push_bit 8 (byte_or_zero view i) = 256 * byte_or_zero view i"
    by (simp add: push_bit_eq_mult)
  moreover have "0 \<le> 256 * byte_or_zero view i" "256 * byte_or_zero view i < 2 ^ 32"
    using byte_or_zero_range [of view i] by simp_all
  ultimately show ?thesis
    by (simp add: unsigned_push_bit_eq uint_ToInt32 take_bit_int_eq_self)
qed

lemma uint_le16:
  "uint (ToInt32 (read view i) OR push_bit 8 (ToInt32 (read view j))) =
     byte_or_zero view i + 256 * byte_or_zero view j"
proof -
  let ?a = "byte_or_zero view i" and ?b = "byte_or_zero view j"
  have "uint (ToInt32 (read view i) OR push_bit 8 (ToInt32 (read view j))) = ?a OR 256 * ?b"
    by (simp only: unsigned_or_eq uint_ToInt32 uint_shifted)
  also have "256 * ?b = push_bit 8 ?b" by (simp add: push_bit_eq_mult)
  also have "?a = take_bit 8 ?a"
    using byte_or_zero_range [of view i] by (simp add: take_bit_int_eq_self)
  also have "take_bit 8 ?a OR push_bit 8 ?b = take_bit 8 ?a + push_bit 8 ?b"
    using concat_bit_eq [of 8 ?a ?b] by (simp add: concat_bit_def)
  finally show ?thesis
    using byte_or_zero_range [of view i] by (simp add: take_bit_int_eq_self push_bit_eq_mult)
qed

lemma sint_le16:
  "sint (ToInt32 (read view i) OR push_bit 8 (ToInt32 (read view j))) =
     byte_or_zero view i + 256 * byte_or_zero view j"
proof -
  let ?w = "ToInt32 (read view i) OR push_bit 8 (ToInt32 (read view j))"
  have u: "uint ?w = byte_or_zero view i + 256 * byte_or_zero view j" by (rule uint_le16)
  have "uint ?w < 2 ^ 31"
    using byte_or_zero_range [of view i] byte_or_zero_range [of view j] by (simp add: u)
  moreover have "- (2 ^ 31) \<le> uint ?w" by (rule order_trans [of _ 0]) simp_all
  ultimately have "signed_take_bit 31 (uint ?w) = uint ?w"
    by (rule signed_take_bit_int_eq_self [rotated])
  then show ?thesis by (simp add: sint_uint u)
qed

lemma getGIFDimensions_le16:
  "getGIFDimensions view =
     Inr \<lparr>width = Num (Finite (of_int (byte_or_zero view 6 + 256 * byte_or_zero view 7))),
          height = Num (Finite (of_int (byte_or_zero view 8 + 256 * byte_or_zero view 9)))\<rparr>"
  by (simp only: getGIFDimensions_def Let_def int32_value_def sint_le16)

lemma short_byte_or_zero: "length view \<le> i \<Longrightarrow> byte_or_zero view i = 0"
  by (simp add: byte_or_zero_def)

lemma le16_range:
  "0 \<le> byte_or_zero view i + 256 * byte_or_zero view j \<and>
   byte_or_zero view i + 256 * byte_or_zero view j < 65536"
  using byte_or_zero_range [of view i] byte_or_zero_range [of view j] by auto

lemma le16_positive:
  "0 < byte_or_zero view i + 256 * byte_or_zero view j \<longleftrightarrow>
     byte_or_zero view i \<noteq> 0 \<or> byte_or_zero view j \<noteq> 0"
  using byte_or_zero_range [of view i] byte_or_zero_range [of view j] by auto

lemma positive_of_int: "positive (Num (Finite (of_int k))) \<longleftrightarrow> 0 < k"
  by (simp add: positive_def)

section \<open>Properties of the SVG functions\<close>

subsection \<open>Substring search\<close>

lemma string_includes_sublist: "string_includes s p \<longleftrightarrow> sublist p s"
  by (induction s) (simp_all add: sublist_Cons_right)

lemma isAnimatedSVG_sublist:
  "isAnimatedSVG s =
     (sublist ''<animate'' s \<or> sublist ''<animateTransform'' s \<or>
      sublist ''<animateMotion'' s \<or> sublist ''<set'' s)"
  by (auto simp: isAnimatedSVG_def string_includes_sublist)

lemma isAnimatedSVG_ffmpeg_sublist:
  "isAnimatedSVG_ffmpeg s =
     (sublist ''<animate'' s \<or> sublist ''<animateTransform'' s \<or>
      sublist ''<animateMotion'' s \<or> sublist ''<set'' s)"
  by (auto simp: isAnimatedSVG_ffmpeg_def string_includes_sublist)

subsection \<open>The attribute patterns\<close>

lemma match_here_Some_iff:
  "match_here name s = Some v \<longleftrightarrow>
     (\<exists>post. s = name @ [CHR ''='', CHR 0x22] @ v @ [CHR 0x22] @ post \<and>
        v \<noteq> [] \<and> CHR 0x22 \<notin> set v)"
proof
  assume m: "match_here name s = Some v"
  let ?lit = "name @ [CHR ''='', CHR 0x22]"
  let ?rest = "drop (length name + 2) s"
  from m have p: "prefix ?lit s"
    by (simp add: match_here_def split: if_splits)
  then have s: "s = ?lit @ ?rest"
    by (auto simp: prefix_def)
  from m p have v: "v = takeWhile (\<lambda>c. c \<noteq> CHR 0x22) ?rest" and ne: "v \<noteq> []"
    and len: "length v < length ?rest"
    by (simp_all add: match_here_def Let_def split: if_splits)
  have noq: "CHR 0x22 \<notin> set v"
    using v by (auto dest: set_takeWhileD)
  let ?d = "dropWhile (\<lambda>c. c \<noteq> CHR 0x22) ?rest"
  have split: "?rest = v @ ?d"
    unfolding v by (rule takeWhile_dropWhile_id [symmetric])
  have "length ?rest = length v + length ?d"
    using arg_cong [OF split, of length] by (simp only: length_append)
  with len have "0 < length ?d" by linarith
  then have dne: "?d \<noteq> []" by (rule length_greater_0_conv [THEN iffD1])
  then obtain x post where d: "?d = x # post"
    unfolding neq_Nil_conv by blast
  from hd_dropWhile [OF dne] d have "x = CHR 0x22" by simp
  with split d have "?rest = v @ CHR 0x22 # post" by simp
  with s have "s = name @ [CHR ''='', CHR 0x22] @ v @ [CHR 0x22] @ post" by simp
  with ne noq show "\<exists>post. s = name @ [CHR ''='', CHR 0x22] @ v @ [CHR 0x22] @ post \<and>
        v \<noteq> [] \<and> CHR 0x22 \<notin> set v" by blast
next
  assume "\<exists>post. s = name @ [CHR ''='', CHR 0x22] @ v @ [CHR 0x22] @ post \<and>
        v \<noteq> [] \<and> CHR 0x22 \<notin> set v"
  then obtain post where s: "s = name @ [CHR ''='', CHR 0x22] @ v @ [CHR 0x22] @ post"
    and ne: "v \<noteq> []" and noq: "CHR 0x22 \<notin> set v" by blast
  have tw: "takeWhile (\<lambda>c. c \<noteq> CHR 0x22) (v @ CHR 0x22 # post) = v"
    using noq by (auto simp: takeWhile_tail)
  have d: "drop (length name + 2) s = v @ CHR 0x22 # post"
    by (simp add: s)
  have p: "prefix (name @ [CHR ''='', CHR 0x22]) s"
    by (simp add: s)
  show "match_here name s = Some v"
    unfolding match_here_def Let_def d tw using ne p by simp
qed

lemma match_attr_None_iff:
  "match_attr name s = None \<longleftrightarrow> (\<forall>pre s'. s = pre @ s' \<longrightarrow> match_here name s' = None)"
proof (induction s)
  case Nil
  then show ?case by simp
next
  case (Cons c s)
  show ?case
  proof
    assume n: "match_attr name (c # s) = None"
    then have h: "match_here name (c # s) = None" and t: "match_attr name s = None"
      by (simp_all split: option.splits)
    show "\<forall>pre s'. c # s = pre @ s' \<longrightarrow> match_here name s' = None"
    proof (intro allI impI)
      fix pre s' assume e: "c # s = pre @ s'"
      show "match_here name s' = None"
      proof (cases pre)
        case Nil with e h show ?thesis by simp
      next
        case (Cons x pre')
        with e have "s = pre' @ s'" by simp
        with t Cons.IH show ?thesis by blast
      qed
    qed
  next
    assume a: "\<forall>pre s'. c # s = pre @ s' \<longrightarrow> match_here name s' = None"
    then have h: "match_here name (c # s) = None" by (metis append_Nil)
    have "\<forall>pre s'. s = pre @ s' \<longrightarrow> match_here name s' = None"
      using a by (metis append_Cons)
    with Cons.IH have "match_attr name s = None" by blast
    with h show "match_attr name (c # s) = None" by simp
  qed
qed

lemma has_attr_iff:
  "has_attr name s \<longleftrightarrow> (\<exists>pre s' v. s = pre @ s' \<and> match_here name s' = Some v)"
proof
  assume "has_attr name s"
  then obtain pre v post where
    s: "s = pre @ name @ [CHR ''='', CHR 0x22] @ v @ [CHR 0x22] @ post"
    and v: "v \<noteq> []" "CHR 0x22 \<notin> set v"
    unfolding has_attr_def by blast
  from v have "match_here name (name @ [CHR ''='', CHR 0x22] @ v @ [CHR 0x22] @ post) = Some v"
    unfolding match_here_Some_iff by blast
  with s show "\<exists>pre s' v. s = pre @ s' \<and> match_here name s' = Some v" by blast
next
  assume "\<exists>pre s' v. s = pre @ s' \<and> match_here name s' = Some v"
  then obtain pre s' v where s: "s = pre @ s'" and m: "match_here name s' = Some v" by blast
  from m obtain post where "s' = name @ [CHR ''='', CHR 0x22] @ v @ [CHR 0x22] @ post"
    and "v \<noteq> []" and "CHR 0x22 \<notin> set v"
    unfolding match_here_Some_iff by blast
  with s show "has_attr name s" unfolding has_attr_def by blast
qed

lemma match_attr_absent: "match_attr name s = None \<longleftrightarrow> \<not> has_attr name s"
  unfolding has_attr_iff match_attr_None_iff by auto

lemma match_attr_Some:
  "match_attr name s = Some v \<Longrightarrow>
     \<exists>pre post. s = pre @ name @ [CHR ''='', CHR 0x22] @ v @ [CHR 0x22] @ post \<and>
        v \<noteq> [] \<and> CHR 0x22 \<notin> set v"
proof (induction s)
  case Nil
  then show ?case using match_here_Some_iff [of name "[]" v] by (metis append_Nil match_attr.simps(1))
next
  case (Cons c s)
  show ?case
  proof (cases "match_here name (c # s)")
    case None
    with Cons.prems have "match_attr name s = Some v" by simp
    from Cons.IH [OF this] obtain pre post where
      "s = pre @ name @ [CHR ''='', CHR 0x22] @ v @ [CHR 0x22] @ post" "v \<noteq> []" "CHR 0x22 \<notin> set v"
      by blast
    then have "c # s = (c # pre) @ name @ [CHR ''='', CHR 0x22] @ v @ [CHR 0x22] @ post \<and>
        v \<noteq> [] \<and> CHR 0x22 \<notin> set v" by simp
    then show ?thesis by blast
  next
    case (Some u)
    with Cons.prems have "u = v" by simp
    with Some match_here_Some_iff [of name "c # s" v] show ?thesis by (metis append_Nil)
  qed
qed

subsection \<open>Splitting at a separator\<close>




subsection \<open>The extractor, case by case\<close>















section \<open>Claims\<close>

text \<open>
  Claim C1. The frame-counting classifier returns static at once when the buffer does
  not start with the three bytes \<^verbatim>\<open>GIF\<close>. Otherwise it starts at offset 13 and moves on by
  8 after a marker \<^verbatim>\<open>21 F9\<close>, by 11 after a byte \<^verbatim>\<open>2C\<close> and by 1 after anything else
  (\<open>scan_positions\<close> lists the offsets so visited, up to the end of the buffer), and it
  answers animated exactly when a second marker stands at a visited offset; reaching
  the end of the buffer before that gives static.
\<close>

theorem isAnimatedGIF_scan:
  "isAnimatedGIF view =
     (has_gif_signature view \<and>
      2 \<le> length (filter (gce_at view) (scan_positions view 13)))"
  by (rule isAnimatedGIF_count)

theorem isAnimatedGIF_scan_witness:
  "isAnimatedGIF gif_two_frames = True \<and>
   has_gif_signature gif_two_frames = True \<and>
   filter (gce_at gif_two_frames) (scan_positions gif_two_frames 13) = [13, 42]"
proof -
  have s: "has_gif_signature gif_two_frames = True" by code_simp
  have f: "filter (gce_at gif_two_frames) (scan_positions gif_two_frames 13) = [13, 42]"
    by code_simp
  from isAnimatedGIF_scan [of gif_two_frames] s f show ?thesis by simp
qed

text \<open>
  Claim C2. For every SVG text the classifier answers animated exactly when one of the
  four strings \<^verbatim>\<open><animate\<close>, \<^verbatim>\<open><animateTransform\<close>, \<^verbatim>\<open><animateMotion\<close>, \<^verbatim>\<open><set\<close> occurs in
  the text as a run of consecutive characters, wherever that is (in a comment or in an
  attribute value as well), and static otherwise. Both revisions of the function give
  the same answer.
\<close>

theorem isAnimatedSVG_substrings:
  "isAnimatedSVG s =
     (sublist ''<animate'' s \<or> sublist ''<animateTransform'' s \<or>
      sublist ''<animateMotion'' s \<or> sublist ''<set'' s) \<and>
   isAnimatedSVG_ffmpeg s = isAnimatedSVG s"
  by (simp only: isAnimatedSVG_sublist isAnimatedSVG_ffmpeg_sublist)

theorem isAnimatedSVG_substrings_witness:
  "isAnimatedSVG ''<svg><!-- <set --></svg>'' = True \<and>
   sublist ''<set'' ''<svg><!-- <set --></svg>'' \<and>
   isAnimatedSVG ''<svg><rect/></svg>'' = False \<and>
   \<not> sublist ''<animate'' ''<svg><rect/></svg>'' \<and>
   \<not> sublist ''<set'' ''<svg><rect/></svg>''"
proof -
  have a: "isAnimatedSVG ''<svg><!-- <set --></svg>'' = True" by code_simp
  have b: "isAnimatedSVG ''<svg><rect/></svg>'' = False" by code_simp
  have c: "sublist ''<set'' ''<svg><!-- <set --></svg>''" by code_simp
  from isAnimatedSVG_substrings [of "''<svg><rect/></svg>''"] a b c show ?thesis by simp
qed

text \<open>
  Claim C3, as stated: the verdict of the frame-counting classifier is "the buffer holds
  at least two Graphic Control Extension blocks". It fails in both directions.
  \<open>gif_gray_frames\<close> is a file of two frames with an extension block at offsets 13 and
  42: the image descriptor at offset 21 moves the scan to offset 32, the second byte of
  the colour \<^verbatim>\<open>2C 2C 2C\<close>, which is taken for another image descriptor and moves the scan
  to offset 43, past the marker at 42; the verdict is static. \<open>gif_marker_colour_frame\<close>
  is a file of one frame with one extension block: the scan goes from 13 to 21 to 32,
  where the colour \<^verbatim>\<open>FF 21 F9\<close> shows the two marker bytes, and the verdict is animated.
\<close>

theorem isAnimatedGIF_two_markers_counterexample:
  "has_gif_signature gif_gray_frames = True \<and>
   gif_gce_blocks gif_gray_frames = Some 2 \<and>
   gce_offsets gif_gray_frames = [13, 42] \<and>
   isAnimatedGIF gif_gray_frames = False \<and>
   has_gif_signature gif_marker_colour_frame = True \<and>
   gif_gce_blocks gif_marker_colour_frame = Some 1 \<and>
   isAnimatedGIF gif_marker_colour_frame = True"
  by code_simp

text \<open>
  Claim C3, amended, with the markers counted as occurrences of the byte pair \<^verbatim>\<open>21 F9\<close>
  from offset 13 on. A buffer with fewer than two of them is classified static. A
  buffer that starts with \<^verbatim>\<open>GIF\<close> and has two or more of them on the path of the scan
  (from offset 13, moving on by 8, 11 or 1) is classified animated, and no other buffer
  is. Every marker on the path is one of the occurrences, so the path never holds more
  markers than the buffer.
\<close>

theorem isAnimatedGIF_marker_count:
  "isAnimatedGIF view =
     (has_gif_signature view \<and>
      2 \<le> length (filter (gce_at view) (scan_positions view 13))) \<and>
   set (filter (gce_at view) (scan_positions view 13)) \<subseteq> set (gce_offsets view) \<and>
   length (filter (gce_at view) (scan_positions view 13)) \<le> length (gce_offsets view) \<and>
   (length (gce_offsets view) < 2 \<longrightarrow> isAnimatedGIF view = False) \<and>
   (has_gif_signature view \<and>
      2 \<le> length (filter (gce_at view) (scan_positions view 13)) \<longrightarrow>
      isAnimatedGIF view = True)"
  using isAnimatedGIF_needs_two [of view] scanned_le_offsets [of 13 view] scanned_subset [of view]
  by (auto simp: isAnimatedGIF_count)

theorem isAnimatedGIF_marker_count_witness:
  "length (gce_offsets gif_single_frame) < 2 \<and> isAnimatedGIF gif_single_frame = False \<and>
   has_gif_signature gif_two_frames \<and>
   filter (gce_at gif_two_frames) (scan_positions gif_two_frames 13) = [13, 42] \<and>
   isAnimatedGIF gif_two_frames = True \<and>
   filter (gce_at gif_gray_frames) (scan_positions gif_gray_frames 13) = [13] \<and>
   isAnimatedGIF gif_gray_frames = False"
proof -
  have a: "length (gce_offsets gif_single_frame) < 2" by code_simp
  have s: "has_gif_signature gif_two_frames" by code_simp
  have f: "filter (gce_at gif_two_frames) (scan_positions gif_two_frames 13) = [13, 42]"
    by code_simp
  have g: "filter (gce_at gif_gray_frames) (scan_positions gif_gray_frames 13) = [13]"
    by code_simp
  from isAnimatedGIF_marker_count [of gif_single_frame] a
  have r1: "isAnimatedGIF gif_single_frame = False" by blast
  from isAnimatedGIF_marker_count [of gif_two_frames] s f
  have r2: "isAnimatedGIF gif_two_frames = True" by simp
  from isAnimatedGIF_marker_count [of gif_gray_frames] g
  have r3: "isAnimatedGIF gif_gray_frames = False" by simp
  from a s f g r1 r2 r3 show ?thesis by blast
qed

text \<open>
  Claim C4, as stated: on every single-frame GIF with exactly one Graphic Control
  Extension the frame-counting classifier answers static. It fails on
  \<open>gif_marker_colour_frame\<close>, a file of one frame with one extension block (at offset 13)
  whose colour table holds \<^verbatim>\<open>FF 21 F9\<close>: the scan goes from 13 (first marker) to 21 (image
  descriptor) to 32, meets the two marker bytes of the colour there and answers
  animated.
\<close>

theorem classifiers_single_block_counterexample:
  "has_gif_signature gif_marker_colour_frame = True \<and>
   gif_gce_blocks gif_marker_colour_frame = Some 1 \<and>
   gce_offsets gif_marker_colour_frame = [13, 32] \<and>
   isAnimatedGIF gif_marker_colour_frame = True"
  by code_simp

text \<open>
  Claim C4, amended. The two classifiers are different functions. On every buffer with
  exactly one occurrence of the byte pair \<^verbatim>\<open>21 F9\<close> from offset 13 on (a single frame
  with its extension block and no other such pair), the frame-counting classifier
  answers static and the first-marker classifier answers animated. The first-marker
  classifier answers animated exactly when the byte pair occurs from offset 13 on, and
  so on every well-formed GIF file with one Graphic Control Extension block, or more.
\<close>

theorem classifiers_differ_on_single_frame:
  "(length (gce_offsets view) = 1 \<longrightarrow>
      isAnimatedGIF view = False \<and> isAnimatedGIF_simple view = True) \<and>
   (gif_gce_blocks view = Some (Suc n) \<longrightarrow> isAnimatedGIF_simple view = True) \<and>
   isAnimatedGIF_simple view = (gce_offsets view \<noteq> []) \<and>
   isAnimatedGIF \<noteq> isAnimatedGIF_simple"
proof (intro conjI)
  show "isAnimatedGIF_simple view = (gce_offsets view \<noteq> [])"
    by (rule isAnimatedGIF_simple_offsets)
next
  show "length (gce_offsets view) = 1 \<longrightarrow>
      isAnimatedGIF view = False \<and> isAnimatedGIF_simple view = True"
    using isAnimatedGIF_needs_two [of view]
    by (auto simp: isAnimatedGIF_simple_offsets)
next
  show "gif_gce_blocks view = Some (Suc n) \<longrightarrow> isAnimatedGIF_simple view = True"
    using gif_gce_blocks_simple [of view n] by blast
next
  have "isAnimatedGIF gif_single_frame = False" by code_simp
  moreover have "isAnimatedGIF_simple gif_single_frame = True" by code_simp
  ultimately show "isAnimatedGIF \<noteq> isAnimatedGIF_simple" by metis
qed

theorem classifiers_differ_on_single_frame_witness:
  "length (gce_offsets gif_single_frame) = 1 \<and>
   gif_gce_blocks gif_single_frame = Some (Suc 0) \<and>
   isAnimatedGIF gif_single_frame = False \<and> isAnimatedGIF_simple gif_single_frame = True \<and>
   gif_gce_blocks gif_marker_colour_frame = Some (Suc 0) \<and>
   isAnimatedGIF_simple gif_marker_colour_frame = True"
proof -
  have a: "length (gce_offsets gif_single_frame) = 1" by code_simp
  have b: "gif_gce_blocks gif_single_frame = Some (Suc 0)" by code_simp
  have c: "gif_gce_blocks gif_marker_colour_frame = Some (Suc 0)" by code_simp
  from classifiers_differ_on_single_frame [of gif_single_frame 0] a
    classifiers_differ_on_single_frame [of gif_marker_colour_frame 0] b c
  show ?thesis by blast
qed

text \<open>
  Claim C5. For every buffer that has the bytes 6 to 9 (at least 10 bytes long), the
  extractor returns as width the unsigned 16-bit number whose low byte is byte 6 and
  whose high byte is byte 7, and as height the one of bytes 8 and 9; when these four
  bytes are \<^verbatim>\<open>0A 00 1E 00\<close> the result is 10 by 30.
\<close>

theorem getGIFDimensions_little_endian:
  "10 \<le> length view \<longrightarrow>
     getGIFDimensions view =
       Inr \<lparr>width = Num (Finite (of_int (uint (view ! 6) + 256 * uint (view ! 7)))),
            height = Num (Finite (of_int (uint (view ! 8) + 256 * uint (view ! 9))))\<rparr> \<and>
     (view ! 6 = 0x0A \<and> view ! 7 = 0x00 \<and> view ! 8 = 0x1E \<and> view ! 9 = 0x00 \<longrightarrow>
        getGIFDimensions view = Inr \<lparr>width = Num (Finite 10), height = Num (Finite 30)\<rparr>)"
  by (simp add: getGIFDimensions_le16 byte_or_zero_def)

theorem getGIFDimensions_little_endian_witness:
  "10 \<le> length gif_dimensions_header \<and>
   gif_dimensions_header ! 6 = 0x0A \<and> gif_dimensions_header ! 7 = 0x00 \<and>
   gif_dimensions_header ! 8 = 0x1E \<and> gif_dimensions_header ! 9 = 0x00 \<and>
   getGIFDimensions gif_dimensions_header =
     Inr \<lparr>width = Num (Finite 10), height = Num (Finite 30)\<rparr>"
proof -
  have a: "10 \<le> length gif_dimensions_header" by code_simp
  have b: "gif_dimensions_header ! 6 = 0x0A \<and> gif_dimensions_header ! 7 = 0x00 \<and>
    gif_dimensions_header ! 8 = 0x1E \<and> gif_dimensions_header ! 9 = 0x00" by code_simp
  from getGIFDimensions_little_endian [of gif_dimensions_header] a b show ?thesis by blast
qed

text \<open>
  Claim C6, as stated: on a buffer shorter than 10 bytes the extractor fails with
  \<open>MalformedInput\<close>. It fails on the 6 bytes \<^verbatim>\<open>GIF89a\<close>: the function has no length check,
  the four reads yield nothing, and it returns 0 by 0.
\<close>

theorem getGIFDimensions_short_counterexample:
  "length gif_signature_only < 10 \<and>
   getGIFDimensions gif_signature_only =
     Inr \<lparr>width = Num (Finite 0), height = Num (Finite 0)\<rparr> \<and>
   getGIFDimensions gif_signature_only \<noteq> Inl MalformedInput"
  by code_simp

text \<open>
  Claim C6, amended: on every buffer shorter than 10 bytes the extractor returns
  dimensions and signals no error. Each byte of the four that is past the end counts
  as 0 and each one present counts as it is: the width is byte 6 plus 256 times byte 7,
  the height is byte 8 (byte 9 is always missing), and a buffer of at most 6 bytes
  gives 0 by 0.
\<close>

theorem getGIFDimensions_short_returns:
  "(length view < 10 \<longrightarrow>
      getGIFDimensions view =
        Inr \<lparr>width = Num (Finite (of_int (byte_or_zero view 6 + 256 * byte_or_zero view 7))),
             height = Num (Finite (of_int (byte_or_zero view 8)))\<rparr> \<and>
      getGIFDimensions view \<noteq> Inl MalformedInput \<and>
      (length view \<le> 6 \<longrightarrow>
         getGIFDimensions view = Inr \<lparr>width = Num (Finite 0), height = Num (Finite 0)\<rparr>)) \<and>
   (length view \<le> i \<longrightarrow> byte_or_zero view i = 0) \<and>
   (i < length view \<longrightarrow> byte_or_zero view i = uint (view ! i))"
  by (simp add: getGIFDimensions_le16 short_byte_or_zero) (simp add: byte_or_zero_def)

theorem getGIFDimensions_short_returns_witness:
  "length gif_nine_bytes < 10 \<and>
   getGIFDimensions gif_nine_bytes =
     Inr \<lparr>width = Num (Finite 10), height = Num (Finite 30)\<rparr> \<and>
   getGIFDimensions gif_nine_bytes \<noteq> Inl MalformedInput \<and>
   length gif_signature_only \<le> 6 \<and>
   getGIFDimensions gif_signature_only =
     Inr \<lparr>width = Num (Finite 0), height = Num (Finite 0)\<rparr>"
proof -
  have a: "length gif_nine_bytes < 10" by code_simp
  have b: "byte_or_zero gif_nine_bytes 6 = 10" "byte_or_zero gif_nine_bytes 7 = 0"
    "byte_or_zero gif_nine_bytes 8 = 30" by code_simp+
  have c: "length gif_signature_only < 10" "length gif_signature_only \<le> 6" by code_simp+
  from getGIFDimensions_short_returns [of gif_nine_bytes 9] a b
  have r1: "getGIFDimensions gif_nine_bytes =
     Inr \<lparr>width = Num (Finite 10), height = Num (Finite 30)\<rparr> \<and>
     getGIFDimensions gif_nine_bytes \<noteq> Inl MalformedInput" by simp
  from getGIFDimensions_short_returns [of gif_signature_only 6] c
  have r2: "getGIFDimensions gif_signature_only =
     Inr \<lparr>width = Num (Finite 0), height = Num (Finite 0)\<rparr>" by blast
  from a c r1 r2 show ?thesis by blast
qed




text \<open>
  Claim C8, as stated: a buffer cut so close behind a marker that the bytes following
  it are missing is classified static. It fails for both scans. The file
  \<open>gif_cut_after_marker\<close> ends with the two marker bytes at offsets 13 and 14 (the read at
  15 yields nothing) and the first-marker scan answers animated; the file
  \<open>gif_cut_after_second_marker\<close> holds one whole extension block and ends with the two
  marker bytes of a second one, and the frame-counting scan answers animated.
\<close>

theorem truncated_marker_counterexample:
  "length gif_cut_after_marker = 15 \<and>
   read gif_cut_after_marker 13 = Some 0x21 \<and> read gif_cut_after_marker 14 = Some 0xF9 \<and>
   read gif_cut_after_marker 15 = None \<and>
   isAnimatedGIF_simple gif_cut_after_marker = True \<and>
   length gif_cut_after_second_marker = 23 \<and>
   read gif_cut_after_second_marker 21 = Some 0x21 \<and>
   read gif_cut_after_second_marker 22 = Some 0xF9 \<and>
   read gif_cut_after_second_marker 23 = None \<and>
   isAnimatedGIF gif_cut_after_second_marker = True"
  by code_simp

text \<open>
  Claim C8, amended. Both scans are total functions (their loops terminate on every
  buffer) and their reads never fault: a read at or past the end yields no byte, so the
  marker test fails at every offset \<open>p\<close> whose second byte \<open>p + 1\<close> is missing. A buffer
  of at most 14 bytes is static under both scans, and so is every buffer without a
  complete two-byte marker from offset 13 on. (A complete marker counts even when the
  rest of its block is missing.)
\<close>

theorem truncated_scan_static:
  "(length view \<le> p + 1 \<longrightarrow> \<not> (read view p = Some 0x21 \<and> read view (p + 1) = Some 0xF9)) \<and>
   (length view \<le> 14 \<longrightarrow> isAnimatedGIF view = False \<and> isAnimatedGIF_simple view = False) \<and>
   (gce_offsets view = [] \<longrightarrow> isAnimatedGIF view = False \<and> isAnimatedGIF_simple view = False)"
  using no_marker_past_end [of view p] short_no_offsets [of view] no_offsets_static [of view]
  by blast

theorem truncated_scan_static_witness:
  "length gif_cut_in_marker \<le> 13 + 1 \<and>
   read gif_cut_in_marker 13 = Some 0x21 \<and> read gif_cut_in_marker (13 + 1) \<noteq> Some 0xF9 \<and>
   isAnimatedGIF gif_cut_in_marker = False \<and> isAnimatedGIF_simple gif_cut_in_marker = False \<and>
   gce_offsets gif_cut_in_marker = []"
proof -
  have a: "length gif_cut_in_marker \<le> 13 + 1" by code_simp
  have b: "read gif_cut_in_marker 13 = Some 0x21" by code_simp
  have c: "gce_offsets gif_cut_in_marker = []" by code_simp
  have a': "length gif_cut_in_marker \<le> 14" using a by simp
  from truncated_scan_static [of gif_cut_in_marker 13] a a' b c show ?thesis by simp
qed

text \<open>
  Claim C9, as stated: the width and height returned are positive on both paths. It
  fails on the GIF path for \<open>gif_zero_header\<close>, a header whose logical screen is 0 by 0
  (the bytes are returned as they are), and on the SVG path for \<open>svg_zero_text\<close>
  (0 by 0) and for \<open>svg_tab_viewbox_text\<close> (\<^verbatim>\<open>undefined\<close> by \<^verbatim>\<open>undefined\<close>).
\<close>

theorem dimensions_positive_counterexample:
  "has_gif_signature gif_zero_header \<and>
   getGIFDimensions gif_zero_header =
     Inr \<lparr>width = Num (Finite 0), height = Num (Finite 0)\<rparr> \<and>
   positive (Num (Finite 0)) = False \<and>
   getSVGDimensions digits_Number digits_parseFloat svg_zero_text =
     Inr \<lparr>width = Num (Finite 0), height = Num (Finite 0)\<rparr> \<and>
   getSVGDimensions digits_Number digits_parseFloat svg_tab_viewbox_text =
     Inr \<lparr>width = Undefined, height = Undefined\<rparr> \<and>
   positive Undefined = False"
  by code_simp

text \<open>
  Claim C9, amended. On the GIF path the width and height are integers from 0 to 65535;
  the width is positive exactly when byte 6 or byte 7 is present and not 0, the height
  exactly when byte 8 or byte 9 is. On the SVG path, a text in which none of
  \<^verbatim>\<open>viewBox\<close>, \<^verbatim>\<open>width\<close> and \<^verbatim>\<open>height\<close> is found yields the positive defaults 800 and 600.
\<close>

theorem dimensions_sign:
  "(\<exists>w h. getGIFDimensions view =
            Inr \<lparr>width = Num (Finite (of_int w)), height = Num (Finite (of_int h))\<rparr> \<and>
          0 \<le> w \<and> w < 65536 \<and> 0 \<le> h \<and> h < 65536 \<and>
          (positive (Num (Finite (of_int w))) \<longleftrightarrow>
             byte_or_zero view 6 \<noteq> 0 \<or> byte_or_zero view 7 \<noteq> 0) \<and>
          (positive (Num (Finite (of_int h))) \<longleftrightarrow>
             byte_or_zero view 8 \<noteq> 0 \<or> byte_or_zero view 9 \<noteq> 0)) \<and>
   (\<not> has_attr ''viewBox'' t \<and> \<not> has_attr ''width'' t \<and> \<not> has_attr ''height'' t \<longrightarrow>
      (\<exists>d. getSVGDimensions N P t = Inr d \<and> positive (width d) \<and> positive (height d)))"
proof
  let ?w = "byte_or_zero view 6 + 256 * byte_or_zero view 7"
  let ?h = "byte_or_zero view 8 + 256 * byte_or_zero view 9"
  have "getGIFDimensions view =
      Inr \<lparr>width = Num (Finite (of_int ?w)), height = Num (Finite (of_int ?h))\<rparr>"
    by (rule getGIFDimensions_le16)
  moreover have "0 \<le> ?w \<and> ?w < 65536" "0 \<le> ?h \<and> ?h < 65536"
    by (rule le16_range)+
  moreover have "positive (Num (Finite (of_int ?w))) \<longleftrightarrow>
      byte_or_zero view 6 \<noteq> 0 \<or> byte_or_zero view 7 \<noteq> 0"
    by (simp only: positive_of_int le16_positive)
  moreover have "positive (Num (Finite (of_int ?h))) \<longleftrightarrow>
      byte_or_zero view 8 \<noteq> 0 \<or> byte_or_zero view 9 \<noteq> 0"
    by (simp only: positive_of_int le16_positive)
  ultimately show "\<exists>w h. getGIFDimensions view =
            Inr \<lparr>width = Num (Finite (of_int w)), height = Num (Finite (of_int h))\<rparr> \<and>
          0 \<le> w \<and> w < 65536 \<and> 0 \<le> h \<and> h < 65536 \<and>
          (positive (Num (Finite (of_int w))) \<longleftrightarrow>
             byte_or_zero view 6 \<noteq> 0 \<or> byte_or_zero view 7 \<noteq> 0) \<and>
          (positive (Num (Finite (of_int h))) \<longleftrightarrow>
             byte_or_zero view 8 \<noteq> 0 \<or> byte_or_zero view 9 \<noteq> 0)"
    by blast
next
  show "\<not> has_attr ''viewBox'' t \<and> \<not> has_attr ''width'' t \<and> \<not> has_attr ''height'' t \<longrightarrow>
      (\<exists>d. getSVGDimensions N P t = Inr d \<and> positive (width d) \<and> positive (height d))"
    by (simp add: match_attr_absent [symmetric] getSVGDimensions_def positive_def)
qed

theorem dimensions_sign_witness:
  "getGIFDimensions gif_dimensions_header =
     Inr \<lparr>width = Num (Finite 10), height = Num (Finite 30)\<rparr> \<and>
   positive (Num (Finite 10)) \<and> positive (Num (Finite 30)) \<and>
   \<not> has_attr ''viewBox'' ''<svg>'' \<and> \<not> has_attr ''width'' ''<svg>'' \<and>
   \<not> has_attr ''height'' ''<svg>'' \<and>
   (\<exists>d. getSVGDimensions digits_Number digits_parseFloat ''<svg>'' = Inr d \<and>
        positive (width d) \<and> positive (height d))"
proof -
  have g: "getGIFDimensions gif_dimensions_header =
     Inr \<lparr>width = Num (Finite 10), height = Num (Finite 30)\<rparr>" by code_simp
  have p: "positive (Num (Finite 10))" "positive (Num (Finite 30))"
    by (simp_all add: positive_def)
  have "match_attr ''viewBox'' ''<svg>'' = None" by code_simp
  then have a: "\<not> has_attr ''viewBox'' ''<svg>''" by (rule match_attr_absent [THEN iffD1])
  have "match_attr ''width'' ''<svg>'' = None" by code_simp
  then have b: "\<not> has_attr ''width'' ''<svg>''" by (rule match_attr_absent [THEN iffD1])
  have "match_attr ''height'' ''<svg>'' = None" by code_simp
  then have c: "\<not> has_attr ''height'' ''<svg>''" by (rule match_attr_absent [THEN iffD1])
  from dimensions_sign [where view = gif_dimensions_header and t = "''<svg>''"
      and N = digits_Number and P = digits_parseFloat] a b c
  have "\<exists>d. getSVGDimensions digits_Number digits_parseFloat ''<svg>'' = Inr d \<and>
        positive (width d) \<and> positive (height d)" by blast
  with g p a b c show ?thesis by blast
qed

text \<open>
  Claim C10. The GIF extractor returns on every buffer and never signals an error: the
  width and height are the little-endian numbers of bytes 6, 7 and 8, 9 with every byte
  past the end of the buffer counted as 0, so the empty buffer gives 0 by 0.
\<close>

theorem getGIFDimensions_total:
  "getGIFDimensions view =
     Inr \<lparr>width = Num (Finite (of_int (byte_or_zero view 6 + 256 * byte_or_zero view 7))),
          height = Num (Finite (of_int (byte_or_zero view 8 + 256 * byte_or_zero view 9)))\<rparr> \<and>
   getGIFDimensions [] = Inr \<lparr>width = Num (Finite 0), height = Num (Finite 0)\<rparr>"
  by (simp add: getGIFDimensions_le16 short_byte_or_zero)

theorem getGIFDimensions_total_witness:
  "getGIFDimensions [0x47, 0x49, 0x46, 0x38, 0x39, 0x61, 0x0A] =
     Inr \<lparr>width = Num (Finite 10), height = Num (Finite 0)\<rparr> \<and>
   byte_or_zero [0x47, 0x49, 0x46, 0x38, 0x39, 0x61, 0x0A] 6 = 10 \<and>
   byte_or_zero [0x47, 0x49, 0x46, 0x38, 0x39, 0x61, 0x0A] 7 = 0"
proof -
  have a: "byte_or_zero [0x47, 0x49, 0x46, 0x38, 0x39, 0x61, 0x0A] 6 = 10" by code_simp
  have b: "byte_or_zero [0x47, 0x49, 0x46, 0x38, 0x39, 0x61, 0x0A] 7 = 0"
    "byte_or_zero [0x47, 0x49, 0x46, 0x38, 0x39, 0x61, 0x0A] 8 = 0"
    "byte_or_zero [0x47, 0x49, 0x46, 0x38, 0x39, 0x61, 0x0A] 9 = 0" by code_simp+
  from getGIFDimensions_total [of "[0x47, 0x49, 0x46, 0x38, 0x39, 0x61, 0x0A]"] a b
  show ?thesis by simp
qed

end
